theory Spec2Isabelle
  imports Complex_Main "HOL-Library.Sublist"
begin

section \<open>Python values used by dba\_pricerunner\_scraper.py\<close>

text \<open>
  A Python \<open>str\<close> is a sequence of Unicode code points; it is modelled as a list of
  natural numbers (the code points), so that the length and the indices are the ones
  Python counts. \<open>ustr\<close> turns a literal of the theory into such a list.

  A Python \<open>float\<close> that comes out of \<open>float(text)\<close> is modelled by the exact rational
  value of the decimal numeral \<open>text\<close>. Python rounds that value to the nearest binary64
  number; the rounding is not modelled. It is the identity on the concrete values that
  occur below (1234, 150, 3250, 12.5, 1.125, ...), it is monotone and it keeps 0, so
  signs and comparisons with 0 are those of the exact value.
\<close>

type_synonym uchar = nat
type_synonym ustring = "nat list"

definition ustr :: "string \<Rightarrow> ustring" where
  "ustr s = map of_char s"

datatype py_error = ValueError | AttributeError | IndexError

abbreviation DOT :: uchar where "DOT \<equiv> 46"
abbreviation COMMA :: uchar where "COMMA \<equiv> 44"
abbreviation SPACE :: uchar where "SPACE \<equiv> 32"
abbreviation NBSP :: uchar where "NBSP \<equiv> 160"

text \<open>
  The tables of the Unicode database that the source reaches through \<open>\d\<close> and
  \<open>str.isdigit\<close> are parameters: \<open>is_decimal\<close> is the category Nd and \<open>is_digit\<close> the
  property behind \<open>str.isdigit\<close>. Both are consulted above U+007F only; on ASCII the
  digits are exactly \<open>0\<close> to \<open>9\<close>.
\<close>

record unicode_db =
  is_decimal :: "uchar \<Rightarrow> bool"
  is_digit :: "uchar \<Rightarrow> bool"

definition ascii_digit :: "uchar \<Rightarrow> bool" where
  "ascii_digit c = (48 \<le> c \<and> c \<le> 57)"

definition re_d :: "unicode_db \<Rightarrow> uchar \<Rightarrow> bool" where
  \<comment> \<open>the regular expression class \<open>\d\<close> on a \<open>str\<close> pattern\<close>
  "re_d U c = (ascii_digit c \<or> (128 \<le> c \<and> is_decimal U c))"

definition py_isdigit :: "unicode_db \<Rightarrow> uchar \<Rightarrow> bool" where
  \<comment> \<open>\<open>ch.isdigit()\<close>\<close>
  "py_isdigit U c = (ascii_digit c \<or> (128 \<le> c \<and> is_digit U c))"

definition uni_space :: "uchar \<Rightarrow> bool" where
  \<comment> \<open>the class \<open>\s\<close> and the characters \<open>str.strip()\<close> removes: Python's Unicode whitespace\<close>
  "uni_space c =
     ((9 \<le> c \<and> c \<le> 13) \<or> (28 \<le> c \<and> c \<le> 32) \<or> c = 133 \<or> c = 160 \<or> c = 5760 \<or>
      (8192 \<le> c \<and> c \<le> 8202) \<or> c = 8232 \<or> c = 8233 \<or> c = 8239 \<or> c = 8287 \<or> c = 12288)"

subsection \<open>String methods\<close>

fun replace_nonempty :: "ustring \<Rightarrow> ustring \<Rightarrow> ustring \<Rightarrow> ustring" where
  "replace_nonempty old new [] = []"
| "replace_nonempty old new (c # cs) =
     (if prefix old (c # cs) then new @ replace_nonempty old new (drop (length old - 1) cs)
      else c # replace_nonempty old new cs)"

definition py_replace :: "ustring \<Rightarrow> ustring \<Rightarrow> ustring \<Rightarrow> ustring" where
  \<comment> \<open>\<open>s.replace(old, new)\<close>: every occurrence, left to right, without overlap\<close>
  "py_replace old new s =
     (if old = [] then new @ concat (map (\<lambda>c. c # new) s) else replace_nonempty old new s)"

definition py_strip :: "ustring \<Rightarrow> ustring" where
  \<comment> \<open>\<open>s.strip()\<close>\<close>
  "py_strip s = rev (dropWhile uni_space (rev (dropWhile uni_space s)))"

fun rfind_aux :: "uchar \<Rightarrow> ustring \<Rightarrow> int \<Rightarrow> int \<Rightarrow> int" where
  "rfind_aux c [] i found = found"
| "rfind_aux c (x # xs) i found = rfind_aux c xs (i + 1) (if x = c then i else found)"

definition py_rfind :: "uchar \<Rightarrow> ustring \<Rightarrow> int" where
  \<comment> \<open>\<open>s.rfind(c)\<close> for a one-character \<open>c\<close>: the last index, or -1\<close>
  "py_rfind c s = rfind_aux c s 0 (- 1)"

subsection \<open>\<open>float(text)\<close> on digits and points\<close>

text \<open>
  Every argument that \<open>normalize_price\<close> hands to \<open>float\<close> consists of the characters
  \<open>0\<close> to \<open>9\<close> and \<open>.\<close> only (lemma \<open>float_argument_alphabet\<close> below). On such a text
  \<open>float\<close> accepts digits with at most one point and at least one digit, and raises
  \<open>ValueError\<close> otherwise. The model covers this fragment; a text with any other
  character is outside it and is given \<open>ValueError\<close> as well.
\<close>

definition digits_val :: "ustring \<Rightarrow> nat" where
  "digits_val ds = foldl (\<lambda>a c. 10 * a + (c - 48)) 0 ds"

definition py_float :: "ustring \<Rightarrow> py_error + rat" where
  "py_float s =
     (if \<not> list_all (\<lambda>c. ascii_digit c \<or> c = DOT) s then Inl ValueError
      else let ip = takeWhile ascii_digit s; rest = dropWhile ascii_digit s in
        case rest of
          [] \<Rightarrow> (if ip = [] then Inl ValueError else Inr (of_nat (digits_val ip)))
        | _ # fp \<Rightarrow>
            (if list_all ascii_digit fp \<and> (ip \<noteq> [] \<or> fp \<noteq> [])
             then Inr (of_nat (digits_val (ip @ fp)) / 10 ^ length fp)
             else Inl ValueError))"

definition float_or_none :: "ustring \<Rightarrow> py_error + rat option" where
  \<comment> \<open>\<open>try: return float(core)\<close> / \<open>except Exception: return None\<close>\<close>
  "float_or_none core = (case py_float core of Inl e \<Rightarrow> Inr None | Inr v \<Rightarrow> Inr (Some v))"

section \<open>normalize\_price\<close>

definition strip_currency :: "ustring \<Rightarrow> ustring" where
  \<comment> \<open>lines 42 to 44: the currency tokens go, a no-break space becomes a space, then \<open>strip\<close>\<close>
  "strip_currency price_str =
     py_strip (py_replace [NBSP] [SPACE]
       (py_replace (ustr ''DKK'') []
         (py_replace (ustr ''kr'') []
           (py_replace (ustr ''kr.'') [] price_str))))"

definition keep_char :: "uchar \<Rightarrow> bool" where
  \<comment> \<open>the characters that \<open>re.sub(r"[^0-9\.,\s]", "", s)\<close> leaves\<close>
  "keep_char c = (ascii_digit c \<or> c = DOT \<or> c = COMMA \<or> uni_space c)"

definition cleaned_of :: "ustring \<Rightarrow> ustring" where
  "cleaned_of price_str = filter keep_char (strip_currency price_str)"

definition match_group_here :: "unicode_db \<Rightarrow> ustring \<Rightarrow> bool" where
  \<comment> \<open>\<open>[\.\s]\d{3}\<close> matches at the head of the text\<close>
  "match_group_here U s =
     (case s of
        x # a # b # c # _ \<Rightarrow> (x = DOT \<or> uni_space x) \<and> re_d U a \<and> re_d U b \<and> re_d U c
      | _ \<Rightarrow> False)"

fun re_search_group :: "unicode_db \<Rightarrow> ustring \<Rightarrow> bool" where
  \<comment> \<open>\<open>re.search(r'(?:[\.\s]\d{3})', cleaned)\<close> finds a match\<close>
  "re_search_group U [] = False"
| "re_search_group U (x # xs) = (match_group_here U (x # xs) \<or> re_search_group U xs)"

definition decimal_sep_of :: "ustring \<Rightarrow> uchar option" where
  \<comment> \<open>lines 64 to 75\<close>
  "decimal_sep_of cleaned =
     (let last_dot = py_rfind DOT cleaned; last_comma = py_rfind COMMA cleaned in
      if last_dot = - 1 \<and> last_comma = - 1 then None
      else if last_dot > last_comma then
        (if int (length cleaned) - last_dot - 1 \<in> {1, 2, 3} then Some DOT else None)
      else
        (if int (length cleaned) - last_comma - 1 \<in> {1, 2, 3} then Some COMMA else None))"

definition thousands_core :: "unicode_db \<Rightarrow> ustring \<Rightarrow> ustring" where
  \<comment> \<open>lines 55 to 57\<close>
  "thousands_core U cleaned =
     (let core = filter (\<lambda>c. \<not> (c = DOT \<or> uni_space c)) cleaned;
          core = py_replace [COMMA] [DOT] core
      in filter (\<lambda>ch. py_isdigit U ch \<or> ch = DOT) core)"

definition decimal_core :: "unicode_db \<Rightarrow> uchar \<Rightarrow> ustring \<Rightarrow> ustring" where
  \<comment> \<open>lines 86 to 93\<close>
  "decimal_core U decimal_sep cleaned =
     (let core =
        (if decimal_sep = DOT then filter (\<lambda>c. \<not> (uni_space c \<or> c = COMMA)) cleaned
         else py_replace [COMMA] [DOT] (filter (\<lambda>c. \<not> (c = DOT \<or> uni_space c)) cleaned))
      in filter (\<lambda>ch. py_isdigit U ch \<or> ch = DOT) core)"

definition normalize_price :: "unicode_db \<Rightarrow> ustring option \<Rightarrow> py_error + rat option" where
  "normalize_price U price_str =
     (case price_str of
        None \<Rightarrow> Inr None
      | Some p \<Rightarrow>
          if p = [] then Inr None
          else let cleaned = cleaned_of p in
            if cleaned = [] then Inr None
            else if re_search_group U cleaned then float_or_none (thousands_core U cleaned)
            else (case decimal_sep_of cleaned of
                    None \<Rightarrow>
                      float_or_none (filter (\<lambda>c. \<not> (uni_space c \<or> c = DOT \<or> c = COMMA)) cleaned)
                  | Some decimal_sep \<Rightarrow> float_or_none (decimal_core U decimal_sep cleaned)))"


subsection \<open>\<open>str(x)\<close> of a float\<close>











section \<open>extract\_price\_string\<close>

text \<open>
  The pattern of line 109 is
  \<open>(\d{1,3}(?:[\.\s]\d{3})*(?:,\d{1,2})?)\s*(kr\.?|DKK)?\<close> with \<open>re.IGNORECASE\<close>.
  Everything after the first digit is optional, so a match starts at the first
  character of class \<open>\d\<close>, and the greedy choice of every piece is never undone: the
  pieces below consume the text in the order of the pattern. Under \<open>IGNORECASE\<close> the
  letter \<open>k\<close> also matches U+212A (KELVIN SIGN), whose lower case is \<open>k\<close>.
\<close>

definition ci_k :: "uchar \<Rightarrow> bool" where
  "ci_k c = (c = 107 \<or> c = 75 \<or> c = 8490)"

definition ci_r :: "uchar \<Rightarrow> bool" where
  "ci_r c = (c = 114 \<or> c = 82)"

definition ci_d :: "uchar \<Rightarrow> bool" where
  "ci_d c = (c = 100 \<or> c = 68)"

fun take_digits :: "unicode_db \<Rightarrow> nat \<Rightarrow> ustring \<Rightarrow> ustring \<times> ustring" where
  \<comment> \<open>at most \<open>n\<close> characters of class \<open>\d\<close>, greedily; the match and the rest\<close>
  "take_digits U 0 s = ([], s)"
| "take_digits U (Suc n) [] = ([], [])"
| "take_digits U (Suc n) (c # cs) =
     (if re_d U c then (case take_digits U n cs of (ds, r) \<Rightarrow> (c # ds, r)) else ([], c # cs))"

fun take_groups :: "unicode_db \<Rightarrow> ustring \<Rightarrow> ustring \<times> ustring" where
  \<comment> \<open>\<open>(?:[\.\s]\d{3})*\<close>\<close>
  "take_groups U (x # a # b # c # rest) =
     (if match_group_here U (x # a # b # c # rest)
      then (case take_groups U rest of (g, r) \<Rightarrow> (x # a # b # c # g, r))
      else ([], x # a # b # c # rest))"
| "take_groups U s = ([], s)"

definition take_decimal :: "unicode_db \<Rightarrow> ustring \<Rightarrow> ustring \<times> ustring" where
  \<comment> \<open>\<open>(?:,\d{1,2})?\<close>\<close>
  "take_decimal U s =
     (case s of
        [] \<Rightarrow> ([], [])
      | c # cs \<Rightarrow>
          if c = COMMA then
            (case take_digits U 2 cs of (ds, r) \<Rightarrow> if ds = [] then ([], s) else (c # ds, r))
          else ([], s))"

definition match_kr :: "ustring \<Rightarrow> ustring option" where
  \<comment> \<open>\<open>kr\.?\<close>\<close>
  "match_kr s =
     (case s of
        k # r # rest \<Rightarrow>
          if ci_k k \<and> ci_r r then
            (case rest of
               [] \<Rightarrow> Some [k, r]
             | d # _ \<Rightarrow> if d = DOT then Some [k, r, d] else Some [k, r])
          else None
      | _ \<Rightarrow> None)"

definition match_dkk :: "ustring \<Rightarrow> ustring option" where
  \<comment> \<open>\<open>DKK\<close>\<close>
  "match_dkk s =
     (case s of
        a # b # c # _ \<Rightarrow> if ci_d a \<and> ci_k b \<and> ci_k c then Some [a, b, c] else None
      | _ \<Rightarrow> None)"

definition take_currency :: "ustring \<Rightarrow> ustring option" where
  \<comment> \<open>\<open>(kr\.?|DKK)?\<close>: the text of group 2, or \<open>None\<close> when the group did not take part\<close>
  "take_currency s = (case match_kr s of Some g \<Rightarrow> Some g | None \<Rightarrow> match_dkk s)"

definition match_price_here :: "unicode_db \<Rightarrow> ustring \<Rightarrow> ustring \<times> ustring option" where
  \<comment> \<open>the match that starts at a character of class \<open>\d\<close>: group 1 and group 2\<close>
  "match_price_here U s =
     (case take_digits U 3 s of (d, r1) \<Rightarrow>
      case take_groups U r1 of (g, r2) \<Rightarrow>
      case take_decimal U r2 of (dec, r3) \<Rightarrow>
        (d @ g @ dec, take_currency (dropWhile uni_space r3)))"

fun re_search_price :: "unicode_db \<Rightarrow> ustring \<Rightarrow> (ustring \<times> ustring option) option" where
  "re_search_price U [] = None"
| "re_search_price U (c # cs) =
     (if re_d U c then Some (match_price_here U (c # cs)) else re_search_price U cs)"

fun re_search_fallback :: "unicode_db \<Rightarrow> ustring \<Rightarrow> ustring option" where
  \<comment> \<open>\<open>re.search(r"(\d+[\d\.\s,]*)", text)\<close>: group 1\<close>
  "re_search_fallback U [] = None"
| "re_search_fallback U (c # cs) =
     (if re_d U c then
        Some (takeWhile (re_d U) (c # cs) @
              takeWhile (\<lambda>x. re_d U x \<or> x = DOT \<or> uni_space x \<or> x = COMMA)
                (dropWhile (re_d U) (c # cs)))
      else re_search_fallback U cs)"

definition py_upper_char :: "uchar \<Rightarrow> uchar" where
  \<comment> \<open>\<open>upper()\<close> on the characters group 2 can hold: ASCII letters, \<open>.\<close> and U+212A\<close>
  "py_upper_char c = (if 97 \<le> c \<and> c \<le> 122 then c - 32 else c)"

definition format_price :: "ustring \<Rightarrow> ustring option \<Rightarrow> ustring" where
  \<comment> \<open>lines 115 to 123\<close>
  "format_price num group2 =
     (let cur = (case group2 of None \<Rightarrow> ustr ''kr.'' | Some g \<Rightarrow> if g = [] then ustr ''kr.'' else g);
          cur = py_strip cur;
          cur = (if map py_upper_char cur = ustr ''DKK'' then ustr ''DKK''
                 else if cur = [] then ustr ''kr.'' else cur)
      in py_strip (num @ [SPACE] @ cur))"

definition extract_price_string :: "unicode_db \<Rightarrow> ustring option \<Rightarrow> py_error + ustring" where
  \<comment> \<open>the match object of the fallback pattern has one group, so \<open>m.group(2)\<close> on it
      raises \<open>IndexError\<close>\<close>
  "extract_price_string U text =
     (case text of
        None \<Rightarrow> Inr []
      | Some t \<Rightarrow>
          if t = [] then Inr []
          else (case re_search_price U t of
                  Some (num, group2) \<Rightarrow> Inr (format_price num group2)
                | None \<Rightarrow>
                    (case re_search_fallback U t of
                       None \<Rightarrow> Inr []
                     | Some num \<Rightarrow> Inl IndexError)))"

section \<open>\_extract\_json\_array\<close>

abbreviation DQUOTE :: uchar where "DQUOTE \<equiv> 34"
abbreviation COLON :: uchar where "COLON \<equiv> 58"
abbreviation LBRACKET :: uchar where "LBRACKET \<equiv> 91"
abbreviation BACKSLASH :: uchar where "BACKSLASH \<equiv> 92"
abbreviation RBRACKET :: uchar where "RBRACKET \<equiv> 93"

fun find_from :: "ustring \<Rightarrow> ustring \<Rightarrow> int \<Rightarrow> int" where
  "find_from sub [] i = (if sub = [] then i else - 1)"
| "find_from sub (c # cs) i = (if prefix sub (c # cs) then i else find_from sub cs (i + 1))"

definition py_find :: "ustring \<Rightarrow> ustring \<Rightarrow> int" where
  \<comment> \<open>\<open>s.find(sub)\<close>: the first index where \<open>sub\<close> starts, or -1\<close>
  "py_find sub s = find_from sub s 0"

definition py_find_start :: "ustring \<Rightarrow> ustring \<Rightarrow> int \<Rightarrow> int" where
  \<comment> \<open>\<open>s.find(sub, start)\<close>\<close>
  "py_find_start sub s start =
     (let n = int (length s); st = (if start < 0 then max 0 (start + n) else start)
      in if st > n then - 1 else find_from sub (drop (nat st) s) st)"

definition py_slice :: "ustring \<Rightarrow> int \<Rightarrow> int \<Rightarrow> ustring" where
  \<comment> \<open>\<open>s[a:b]\<close> for indices that are not negative\<close>
  "py_slice s a b = drop (nat a) (take (nat b) s)"

record scan_state =
  in_str :: bool
  esc :: bool
  depth :: int

datatype scan_step = Continue scan_state | Return

definition scan_char :: "scan_state \<Rightarrow> uchar \<Rightarrow> scan_step" where
  \<comment> \<open>the body of the loop of lines 258 to 271\<close>
  "scan_char st ch =
     (let in_str1 = (if ch = DQUOTE \<and> \<not> esc st then \<not> in_str st else in_str st) in
      if ch = BACKSLASH \<and> \<not> esc st then
        Continue \<lparr>in_str = in_str1, esc = True, depth = depth st\<rparr>
      else if \<not> in_str1 then
        (if ch = LBRACKET then
           Continue \<lparr>in_str = in_str1, esc = False, depth = depth st + 1\<rparr>
         else if ch = RBRACKET then
           (if depth st - 1 = 0 then Return
            else Continue \<lparr>in_str = in_str1, esc = False, depth = depth st - 1\<rparr>)
         else Continue \<lparr>in_str = in_str1, esc = False, depth = depth st\<rparr>)
      else Continue \<lparr>in_str = in_str1, esc = False, depth = depth st\<rparr>)"

fun scan_from :: "scan_state \<Rightarrow> int \<Rightarrow> ustring \<Rightarrow> int option" where
  \<comment> \<open>the loop over \<open>enumerate(text[i:], start=i)\<close>: the index \<open>j\<close> of the return, if any\<close>
  "scan_from st j [] = None"
| "scan_from st j (ch # rest) =
     (case scan_char st ch of
        Return \<Rightarrow> Some j
      | Continue st' \<Rightarrow> scan_from st' (j + 1) rest)"

definition extract_json_array :: "ustring option \<Rightarrow> ustring \<Rightarrow> py_error + ustring option" where
  \<comment> \<open>\<open>text.find\<close> on \<open>None\<close> raises \<open>AttributeError\<close>\<close>
  "extract_json_array text key =
     (case text of
        None \<Rightarrow> Inl AttributeError
      | Some t \<Rightarrow>
          let needle = [DQUOTE] @ key @ [DQUOTE, COLON, LBRACKET];
              idx = py_find needle t in
          if idx = - 1 then Inr None
          else let i = py_find_start [LBRACKET] t idx in
            if i = - 1 then Inr None
            else (case scan_from \<lparr>in_str = False, esc = False, depth = 0\<rparr> i (drop (nat i) t) of
                    Some j \<Rightarrow> Inr (Some (py_slice t i (j + 1)))
                  | None \<Rightarrow> Inr None))"

section \<open>The price filter and the comparison rows\<close>

record listing =
  site :: ustring
  title :: ustring
  price :: ustring
  price_num :: "rat option"
  url :: "ustring option"
  location :: ustring

definition in_range :: "rat option \<Rightarrow> rat option \<Rightarrow> listing \<Rightarrow> bool" where
  \<comment> \<open>lines 514 to 522, with \<open>minp\<close> and \<open>maxp\<close> of the enclosing scope as arguments\<close>
  "in_range minp maxp it =
     (case price_num it of
        None \<Rightarrow> False
      | Some pn \<Rightarrow>
          if (case minp of None \<Rightarrow> False | Some lo \<Rightarrow> pn < lo) then False
          else if (case maxp of None \<Rightarrow> False | Some hi \<Rightarrow> pn > hi) then False
          else True)"

definition apply_price_filter :: "rat option \<Rightarrow> rat option \<Rightarrow> listing list \<Rightarrow> listing list" where
  \<comment> \<open>lines 513 to 526, for one of the two lists\<close>
  "apply_price_filter minp maxp items =
     (if minp \<noteq> None \<or> maxp \<noteq> None then filter (in_range minp maxp) items else items)"

definition py_take :: "int \<Rightarrow> 'a list \<Rightarrow> 'a list" where
  \<comment> \<open>\<open>rows[:n]\<close>\<close>
  "py_take n xs = (if 0 \<le> n then take (nat n) xs else take (nat (int (length xs) + n)) xs)"

definition row_at :: "'a list \<Rightarrow> 'b list \<Rightarrow> nat \<Rightarrow> 'a option \<times> 'b option" where
  \<comment> \<open>\<open>left\<close> and \<open>right\<close> of lines 341 and 342\<close>
  "row_at dba_items pr_items i =
     (if i < length dba_items then Some (dba_items ! i) else None,
      if i < length pr_items then Some (pr_items ! i) else None)"

definition comparison_rows :: "'a list \<Rightarrow> 'b list \<Rightarrow> int \<Rightarrow> ('a option \<times> 'b option) list" where
  \<comment> \<open>the rows that \<open>print_comparison_table\<close> prints: \<open>rows[:n]\<close>, each row kept as the
      pair \<open>(left, right)\<close> it is rendered from\<close>
  "comparison_rows dba_items pr_items n =
     (let maxrows = max (max (int (length dba_items)) (int (length pr_items))) n
      in py_take n (map (row_at dba_items pr_items) [0..<nat maxrows]))"


section \<open>Reference predicates and sample data\<close>

definition ascii_tables :: unicode_db where
  \<comment> \<open>tables without any digit above U+007F; the sample texts below are ASCII, where no
      table is consulted\<close>
  "ascii_tables = \<lparr>is_decimal = (\<lambda>c. False), is_digit = (\<lambda>c. False)\<rparr>"

fun spec_sep_then_exactly_three :: "ustring \<Rightarrow> bool" where
  \<comment> \<open>the wording of the specification: somewhere a \<open>.\<close> or a whitespace character is
      followed by exactly three digits\<close>
  "spec_sep_then_exactly_three (x # a # b # c # rest) =
     (((x = DOT \<or> uni_space x) \<and> ascii_digit a \<and> ascii_digit b \<and> ascii_digit c \<and>
       (case rest of [] \<Rightarrow> True | d # _ \<Rightarrow> \<not> ascii_digit d))
      \<or> spec_sep_then_exactly_three (a # b # c # rest))"
| "spec_sep_then_exactly_three s = False"

definition spec_within_bounds :: "rat option \<Rightarrow> rat option \<Rightarrow> listing \<Rightarrow> bool" where
  \<comment> \<open>the wording of the specification: the price is present and lies in \<open>[lo, hi]\<close>, an
      absent bound being no bound\<close>
  "spec_within_bounds lo hi it =
     (case price_num it of
        None \<Rightarrow> False
      | Some v \<Rightarrow> (case lo of None \<Rightarrow> True | Some a \<Rightarrow> a \<le> v) \<and>
                  (case hi of None \<Rightarrow> True | Some b \<Rightarrow> v \<le> b))"

definition listing_with :: "rat option \<Rightarrow> listing" where
  "listing_with p =
     \<lparr>site = ustr ''dba'', title = [], price = [], price_num = p, url = None, location = []\<rparr>"


text \<open>
  The shape of an array text, in the words of the specification: an array is a \<open>[\<close>,
  pieces and a \<open>]\<close>; a piece is a quoted string, a nested array, or a character that is
  no quote, backslash or bracket. Inside a quoted string a backslash escapes the next
  character, and any other character but the quote stands for itself, a \<open>]\<close> included.
\<close>

datatype json_piece = Lit ustring | Ch uchar | Arr "json_piece list"

fun spec_render :: "json_piece \<Rightarrow> ustring" where
  "spec_render (Lit b) = DQUOTE # b @ [DQUOTE]"
| "spec_render (Ch c) = [c]"
| "spec_render (Arr ps) = LBRACKET # concat (map spec_render ps) @ [RBRACKET]"

fun spec_string_body :: "ustring \<Rightarrow> bool" where
  "spec_string_body [] = True"
| "spec_string_body (c # cs) =
     (if c = BACKSLASH then (case cs of [] \<Rightarrow> False | _ # cs' \<Rightarrow> spec_string_body cs')
      else c \<noteq> DQUOTE \<and> spec_string_body cs)"

fun spec_wf :: "json_piece \<Rightarrow> bool" where
  "spec_wf (Lit b) = spec_string_body b"
| "spec_wf (Ch c) = (c \<noteq> DQUOTE \<and> c \<noteq> BACKSLASH \<and> c \<noteq> LBRACKET \<and> c \<noteq> RBRACKET)"
| "spec_wf (Arr ps) = list_all spec_wf ps"

definition spec_first_at :: "ustring \<Rightarrow> ustring \<Rightarrow> nat \<Rightarrow> bool" where
  \<comment> \<open>\<open>sub\<close> occurs in \<open>t\<close> at index \<open>n\<close> and at no index before\<close>
  "spec_first_at sub t n =
     (prefix sub (drop n t) \<and> list_all (\<lambda>k. \<not> prefix sub (drop k t)) [0..<n])"

definition spec_embed :: "ustring \<Rightarrow> ustring \<Rightarrow> json_piece list \<Rightarrow> ustring \<Rightarrow> ustring" where
  \<comment> \<open>a text that holds \<open>"key":\<close> and the array of the pieces \<open>ps\<close> between \<open>pre\<close> and \<open>tail\<close>\<close>
  "spec_embed pre key ps tail =
     pre @ DQUOTE # key @ [DQUOTE, COLON] @ spec_render (Arr ps) @ tail"


lemmas normalize_unfold =
  normalize_price_def ustr_def cleaned_of_def strip_currency_def py_replace_def py_strip_def
  keep_char_def ascii_digit_def uni_space_def match_group_here_def decimal_sep_of_def
  py_rfind_def thousands_core_def decimal_core_def float_or_none_def py_float_def
  digits_val_def re_d_def py_isdigit_def

section \<open>Facts about the string methods\<close>

lemma replace_single: "py_replace [a] [b] s = map (\<lambda>c. if c = a then b else c) s"
  by (induction s) (auto simp: py_replace_def)

lemma set_replace_nonempty: "set (replace_nonempty old new s) \<subseteq> set s \<union> set new"
  by (induction old new s rule: replace_nonempty.induct) (auto dest: in_set_dropD)

lemma set_py_replace_delete: "old \<noteq> [] \<Longrightarrow> set (py_replace old [] s) \<subseteq> set s"
  using set_replace_nonempty [of old "[]" s] by (simp add: py_replace_def)

lemma set_py_strip: "set (py_strip s) \<subseteq> set s"
  by (auto simp: py_strip_def dest!: set_dropWhileD)






lemma digit_not_space: "ascii_digit c \<Longrightarrow> \<not> uni_space c"
  by (auto simp: ascii_digit_def uni_space_def)

lemma digit_not_sep: "ascii_digit c \<Longrightarrow> c \<noteq> DOT \<and> c \<noteq> COMMA"
  by (auto simp: ascii_digit_def)

lemma digit_not_letter: "ascii_digit c \<Longrightarrow> \<not> ci_k c \<and> \<not> ci_d c"
  by (auto simp: ascii_digit_def ci_k_def ci_d_def)


section \<open>Facts about \<open>float\<close>\<close>

lemma py_float_nonneg: "py_float s = Inr v \<Longrightarrow> 0 \<le> v"
  by (auto simp: py_float_def Let_def split: if_splits list.splits)

lemma py_float_no_digit:
  assumes "\<forall>c\<in>set s. \<not> ascii_digit c"
  shows "py_float s = Inl ValueError"
proof (cases s)
  case Nil
  then show ?thesis by (simp add: py_float_def)
next
  case (Cons c cs)
  with assms have "\<not> ascii_digit c" by simp
  with Cons have tw: "takeWhile ascii_digit s = []" and dw: "dropWhile ascii_digit s = c # cs"
    by simp_all
  from assms Cons have "cs = [] \<or> \<not> list_all ascii_digit cs"
    by (cases cs) auto
  with tw dw show ?thesis
    by (auto simp: py_float_def Let_def)
qed

lemma float_or_none_cases:
  "float_or_none s = Inr None \<or> (\<exists>v. float_or_none s = Inr (Some v) \<and> py_float s = Inr v)"
  by (cases "py_float s") (simp_all add: float_or_none_def)

lemma float_or_none_no_digit: "\<forall>c\<in>set s. \<not> ascii_digit c \<Longrightarrow> float_or_none s = Inr None"
  by (simp add: float_or_none_def py_float_no_digit)



section \<open>Facts about \<open>normalize_price\<close>\<close>

lemma set_strip_currency: "set (strip_currency p) \<subseteq> set p \<union> {SPACE}"
proof -
  have 1: "set (py_replace (ustr ''kr.'') [] p) \<subseteq> set p"
    by (rule set_py_replace_delete) (simp add: ustr_def)
  have 2: "set (py_replace (ustr ''kr'') [] (py_replace (ustr ''kr.'') [] p)) \<subseteq> set p"
    using set_py_replace_delete [of "ustr ''kr''" "py_replace (ustr ''kr.'') [] p"] 1
    by (auto simp: ustr_def)
  have 3: "set (py_replace (ustr ''DKK'') []
             (py_replace (ustr ''kr'') [] (py_replace (ustr ''kr.'') [] p))) \<subseteq> set p"
    using set_py_replace_delete
      [of "ustr ''DKK''" "py_replace (ustr ''kr'') [] (py_replace (ustr ''kr.'') [] p)"] 2
    by (auto simp: ustr_def)
  let ?t = "py_replace (ustr ''DKK'') []
              (py_replace (ustr ''kr'') [] (py_replace (ustr ''kr.'') [] p))"
  have 4: "set (py_replace [NBSP] [SPACE] ?t) \<subseteq> set ?t \<union> {SPACE}"
    using set_replace_nonempty [of "[NBSP]" "[SPACE]" ?t] by (simp add: py_replace_def)
  have 5: "set (strip_currency p) \<subseteq> set (py_replace [NBSP] [SPACE] ?t)"
    unfolding strip_currency_def by (rule set_py_strip)
  from 3 4 5 show ?thesis by blast
qed

lemma cleaned_keep: "c \<in> set (cleaned_of p) \<Longrightarrow> keep_char c"
  by (simp add: cleaned_of_def)

lemma cleaned_digit_from_input: "c \<in> set (cleaned_of p) \<Longrightarrow> ascii_digit c \<Longrightarrow> c \<in> set p"
  using set_strip_currency [of p] by (auto simp: cleaned_of_def ascii_digit_def)

lemma thousands_core_eq:
  assumes "\<forall>c\<in>set cleaned. keep_char c"
  shows "thousands_core U cleaned =
         py_replace [COMMA] [DOT] (filter (\<lambda>c. \<not> (c = DOT \<or> uni_space c)) cleaned)"
proof -
  have "\<forall>c \<in> set (py_replace [COMMA] [DOT] (filter (\<lambda>c. \<not> (c = DOT \<or> uni_space c)) cleaned)).
          py_isdigit U c \<or> c = DOT"
    using assms by (auto simp: replace_single keep_char_def py_isdigit_def)
  then show ?thesis
    by (simp add: thousands_core_def Let_def)
qed

lemma float_argument_alphabet:
  assumes "\<forall>c\<in>set cleaned. keep_char c"
  shows "list_all (\<lambda>c. ascii_digit c \<or> c = DOT) (thousands_core U cleaned)"
    and "list_all (\<lambda>c. ascii_digit c \<or> c = DOT) (decimal_core U sep cleaned)"
    and "list_all (\<lambda>c. ascii_digit c \<or> c = DOT)
           (filter (\<lambda>c. \<not> (uni_space c \<or> c = DOT \<or> c = COMMA)) cleaned)"
  using assms
  by (auto simp: list_all_iff thousands_core_def decimal_core_def Let_def replace_single
      keep_char_def split: if_splits)

lemma core_digit_thousands:
  "c \<in> set (thousands_core U cleaned) \<Longrightarrow> ascii_digit c \<Longrightarrow> c \<in> set cleaned"
  by (auto simp: thousands_core_def Let_def replace_single ascii_digit_def split: if_splits)

lemma core_digit_decimal:
  "c \<in> set (decimal_core U sep cleaned) \<Longrightarrow> ascii_digit c \<Longrightarrow> c \<in> set cleaned"
  by (auto simp: decimal_core_def Let_def replace_single ascii_digit_def split: if_splits)

lemma spec_group_found: "spec_sep_then_exactly_three s \<Longrightarrow> re_search_group U s"
  by (induction s rule: spec_sep_then_exactly_three.induct)
     (auto simp: match_group_here_def re_d_def)











section \<open>Claims about \<open>normalize_price\<close>\<close>


lemma normalize_kr_prefix: "normalize_price U (Some (ustr ''kr. 1.234'')) = Inr (Some 1234)"
  by (simp add: normalize_unfold)

lemma normalize_danish_decimal: "normalize_price U (Some (ustr ''1.234,00 kr'')) = Inr (Some 1234)"
  by (simp add: normalize_unfold)

lemma normalize_kr_suffix: "normalize_price U (Some (ustr ''150 kr.'')) = Inr (Some 150)"
  by (simp add: normalize_unfold)

lemma normalize_bare_group: "normalize_price U (Some (ustr ''3.250'')) = Inr (Some 3250)"
  by (simp add: normalize_unfold)

lemma normalize_comma_decimal: "normalize_price U (Some (ustr ''12,5'')) = Inr (Some (25 / 2))"
  by (simp add: normalize_unfold)

lemma normalize_empty: "normalize_price U (Some (ustr '''')) = Inr None"
  by (simp add: normalize_price_def ustr_def)

text \<open>
  C1: on the inputs the specification lists, \<open>normalize_price\<close> returns the listed
  values: \<open>kr. 1.234\<close> gives 1234, \<open>1.234,00 kr\<close> gives 1234, \<open>150 kr.\<close> gives 150,
  \<open>3.250\<close> gives 3250, \<open>12,5\<close> gives 12.5, and the empty text (like \<open>None\<close>) gives
  \<open>None\<close>. All five values are binary64 numbers, so the float is the value itself.
\<close>

theorem normalize_price_examples:
  "normalize_price U (Some (ustr ''kr. 1.234'')) = Inr (Some 1234) \<and>
   normalize_price U (Some (ustr ''1.234,00 kr'')) = Inr (Some 1234) \<and>
   normalize_price U (Some (ustr ''150 kr.'')) = Inr (Some 150) \<and>
   normalize_price U (Some (ustr ''3.250'')) = Inr (Some 3250) \<and>
   normalize_price U (Some (ustr ''12,5'')) = Inr (Some (25 / 2)) \<and>
   normalize_price U (Some (ustr '''')) = Inr None \<and>
   normalize_price U None = Inr None"
  using normalize_kr_prefix normalize_danish_decimal normalize_kr_suffix normalize_bare_group
    normalize_comma_decimal normalize_empty
  by (simp add: normalize_price_def [of U None])

text \<open>
  C2: when the cleaned text holds a \<open>.\<close> or whitespace character followed by exactly
  three digits, the result is \<open>float\<close> of the cleaned text without its \<open>.\<close> and
  whitespace characters and with \<open>,\<close> turned into \<open>.\<close> (\<open>None\<close> when \<open>float\<close>
  refuses it), whatever the last separator is. The source fires the rule as soon as three
  digits follow, which covers the case of exactly three.
\<close>

theorem thousands_rule:
  assumes "spec_sep_then_exactly_three (cleaned_of s)"
  shows "normalize_price U (Some s) =
         float_or_none (py_replace [COMMA] [DOT]
           (filter (\<lambda>c. \<not> (c = DOT \<or> uni_space c)) (cleaned_of s)))"
proof -
  from assms have ne: "cleaned_of s \<noteq> []" by auto
  then have "s \<noteq> []"
    by (auto simp: cleaned_of_def strip_currency_def py_replace_def py_strip_def ustr_def)
  moreover have "re_search_group U (cleaned_of s)"
    using assms by (rule spec_group_found)
  moreover have "thousands_core U (cleaned_of s) =
      py_replace [COMMA] [DOT] (filter (\<lambda>c. \<not> (c = DOT \<or> uni_space c)) (cleaned_of s))"
    by (rule thousands_core_eq) (simp add: cleaned_keep)
  ultimately show ?thesis using ne
    by (simp add: normalize_price_def Let_def)
qed

lemma cleaned_bare_group: "cleaned_of (ustr ''3.250'') = ustr ''3.250''"
  by (simp add: normalize_unfold)

theorem thousands_rule_witness:
  "spec_sep_then_exactly_three (cleaned_of (ustr ''3.250'')) \<and>
   decimal_sep_of (cleaned_of (ustr ''3.250'')) = Some DOT \<and>
   normalize_price ascii_tables (Some (ustr ''3.250'')) = Inr (Some 3250)"
proof -
  have h: "spec_sep_then_exactly_three (cleaned_of (ustr ''3.250''))"
    unfolding cleaned_bare_group by (simp add: ustr_def ascii_digit_def)
  have d: "decimal_sep_of (cleaned_of (ustr ''3.250'')) = Some DOT"
    unfolding cleaned_bare_group by (simp add: ustr_def decimal_sep_of_def py_rfind_def)
  have f: "float_or_none (py_replace [COMMA] [DOT]
             (filter (\<lambda>c. \<not> (c = DOT \<or> uni_space c)) (cleaned_of (ustr ''3.250'')))) =
           Inr (Some 3250)"
    unfolding cleaned_bare_group by (simp add: normalize_unfold)
  from thousands_rule [OF h, of ascii_tables] f have
    "normalize_price ascii_tables (Some (ustr ''3.250'')) = Inr (Some 3250)" by simp
  with h d show ?thesis by simp
qed

text \<open>
  C4: a text without any of the digits \<open>0\<close> to \<open>9\<close> normalizes to \<open>None\<close>, also when
  it holds \<open>.\<close>, \<open>,\<close> or whitespace.
\<close>

theorem no_digit_absent:
  assumes "\<forall>c\<in>set s. \<not> ascii_digit c"
  shows "normalize_price U (Some s) = Inr None"
proof -
  have nd: "\<forall>c\<in>set (cleaned_of s). \<not> ascii_digit c"
    using assms cleaned_digit_from_input by blast
  have a: "float_or_none (thousands_core U (cleaned_of s)) = Inr None"
    by (rule float_or_none_no_digit) (use nd core_digit_thousands in blast)
  have b: "float_or_none (decimal_core U sep (cleaned_of s)) = Inr None" for sep
    by (rule float_or_none_no_digit) (use nd core_digit_decimal in blast)
  have c: "float_or_none (filter (\<lambda>c. \<not> (uni_space c \<or> c = DOT \<or> c = COMMA)) (cleaned_of s)) =
           Inr None"
    by (rule float_or_none_no_digit) (use nd in auto)
  show ?thesis
    by (simp add: normalize_price_def Let_def a b c [simplified] split: option.split)
qed

theorem no_digit_absent_witness:
  "list_all (\<lambda>c. \<not> ascii_digit c) (ustr ''ca. , kr'') \<and>
   normalize_price ascii_tables (Some (ustr ''ca. , kr'')) = Inr None"
proof -
  have l: "list_all (\<lambda>c. \<not> ascii_digit c) (ustr ''ca. , kr'')"
    by (simp add: ustr_def ascii_digit_def)
  then have h: "\<forall>c\<in>set (ustr ''ca. , kr''). \<not> ascii_digit c"
    by (simp only: list_all_iff)
  from no_digit_absent [OF h, of ascii_tables] l show ?thesis by simp
qed

text \<open>
  C10: a number returned by \<open>normalize_price\<close> is never negative; a minus sign is
  dropped with the other characters, so \<open>-150 kr\<close> gives 150.
\<close>

theorem normalize_nonneg:
  assumes "normalize_price U x = Inr (Some v)"
  shows "0 \<le> v"
proof -
  have "\<exists>core. float_or_none core = Inr (Some v)"
    using assms
    by (auto simp: normalize_price_def Let_def split: option.splits if_splits)
  then obtain core where "float_or_none core = Inr (Some v)" ..
  with float_or_none_cases [of core] have "py_float core = Inr v" by auto
  then show ?thesis by (rule py_float_nonneg)
qed

lemma normalize_minus_sign: "normalize_price ascii_tables (Some (ustr ''-150 kr'')) = Inr (Some 150)"
  by (simp add: normalize_unfold)

theorem normalize_nonneg_witness:
  "normalize_price ascii_tables (Some (ustr ''-150 kr'')) = Inr (Some 150) \<and> (0::rat) \<le> 150"
  using normalize_nonneg [OF normalize_minus_sign] normalize_minus_sign by simp




section \<open>Facts about the rendering of a float\<close>





































section \<open>Claims about \<open>extract_price_string\<close>\<close>


lemma take_currency_digit: "ascii_digit d \<Longrightarrow> take_currency (d # rest) = None"
  by (auto simp: take_currency_def match_kr_def match_dkk_def dest: digit_not_letter split: list.splits)

lemma take_groups_digit: "ascii_digit d \<Longrightarrow> take_groups U (d # rest) = ([], d # rest)"
  by (cases "(U, d # rest)" rule: take_groups.cases)
     (auto simp: match_group_here_def dest: digit_not_space digit_not_sep)

lemma take_decimal_digit: "ascii_digit d \<Longrightarrow> take_decimal U (d # rest) = ([], d # rest)"
  by (auto simp: take_decimal_def dest: digit_not_sep)

lemma match_four_digits:
  assumes "ascii_digit a" "ascii_digit b" "ascii_digit c" "ascii_digit d"
  shows "match_price_here U (a # b # c # d # rest) = ([a, b, c], None)"
proof -
  have td: "take_digits U 3 (a # b # c # d # rest) = ([a, b, c], d # rest)"
    using assms(1,2,3) by (simp add: numeral_3_eq_3 re_d_def)
  have ns: "\<not> uni_space d"
    using assms(4) by (rule digit_not_space)
  show ?thesis
    by (simp add: match_price_here_def td take_groups_digit take_decimal_digit
        take_currency_digit ns assms(4))
qed

lemma format_default:
  assumes "ascii_digit a"
  shows "format_price [a, b, c] None = [a, b, c] @ ustr '' kr.''"
proof -
  have s: "\<not> uni_space a" using assms by (rule digit_not_space)
  have k: "py_strip (ustr ''kr.'') = ustr ''kr.''"
    by (simp add: py_strip_def ustr_def uni_space_def)
  have u: "map py_upper_char (ustr ''kr.'') \<noteq> ustr ''DKK''"
    by (simp add: ustr_def py_upper_char_def)
  have n: "ustr ''kr.'' \<noteq> []" by (simp add: ustr_def)
  have p: "py_strip ([a, b, c] @ [SPACE] @ ustr ''kr.'') = [a, b, c] @ ustr '' kr.''"
    using s by (simp add: py_strip_def ustr_def uni_space_def)
  show ?thesis
    unfolding format_price_def Let_def by (simp only: option.case k u n p if_False)
qed


text \<open>
  C9: on a bare run of four or more digits the primary pattern matches the first three
  digits, and \<open>extract_price_string\<close> returns them followed by the default suffix
  \<open> kr.\<close>; the fallback pattern is not reached.
\<close>

theorem digit_run_truncated:
  assumes "list_all ascii_digit s" "4 \<le> length s"
  shows "re_search_price U s = Some (take 3 s, None) \<and>
         extract_price_string U (Some s) = Inr (take 3 s @ ustr '' kr.'')"
proof -
  from assms(2) obtain a b c d rest where s: "s = a # b # c # d # rest"
    by (auto simp: eval_nat_numeral Suc_le_length_iff)
  with assms(1) have dg: "ascii_digit a" "ascii_digit b" "ascii_digit c" "ascii_digit d"
    by simp_all
  have m: "re_search_price U s = Some ([a, b, c], None)"
    using dg by (simp add: s re_d_def match_four_digits)
  then have "extract_price_string U (Some s) = Inr (take 3 s @ ustr '' kr.'')"
    by (simp add: extract_price_string_def s format_default [OF dg(1)])
  with m show ?thesis by (simp add: s)
qed

theorem digit_run_truncated_witness:
  "list_all ascii_digit (ustr ''12345'') \<and> 4 \<le> length (ustr ''12345'') \<and>
   extract_price_string ascii_tables (Some (ustr ''12345'')) = Inr (ustr ''123 kr.'')"
proof -
  have h: "list_all ascii_digit (ustr ''12345'')" by (simp add: ustr_def ascii_digit_def)
  have l: "4 \<le> length (ustr ''12345'')" by (simp add: ustr_def)
  have "extract_price_string ascii_tables (Some (ustr ''12345'')) =
        Inr (take 3 (ustr ''12345'') @ ustr '' kr.'')"
    using digit_run_truncated [OF h l, of ascii_tables] by blast
  then have "extract_price_string ascii_tables (Some (ustr ''12345'')) = Inr (ustr ''123 kr.'')"
    by (simp add: ustr_def)
  with h l show ?thesis by blast
qed

section \<open>Claims about \<open>extract_json_array\<close>\<close>

lemma string_body_skipped:
  "spec_string_body b \<Longrightarrow>
   scan_from \<lparr>in_str = True, esc = False, depth = d\<rparr> j (b @ DQUOTE # rest) =
   scan_from \<lparr>in_str = False, esc = False, depth = d\<rparr> (j + int (length b) + 1) rest"
proof (induction b arbitrary: j rule: spec_string_body.induct)
  case 1
  then show ?case by (simp add: scan_char_def)
next
  case (2 c cs)
  show ?case
  proof (cases "c = BACKSLASH")
    case True
    with 2(3) obtain x cs' where cs: "cs = x # cs'" and b: "spec_string_body cs'"
      by (cases cs) auto
    have "scan_from \<lparr>in_str = True, esc = False, depth = d\<rparr> (j + 1 + 1) (cs' @ DQUOTE # rest) =
          scan_from \<lparr>in_str = False, esc = False, depth = d\<rparr> (j + 1 + 1 + int (length cs') + 1) rest"
      using 2(1) [OF True cs b] .
    then show ?thesis
      using True cs by (simp add: scan_char_def Let_def add.assoc)
  next
    case False
    with 2(3) have q: "c \<noteq> DQUOTE" and b: "spec_string_body cs" by auto
    have "scan_from \<lparr>in_str = True, esc = False, depth = d\<rparr> (j + 1) (cs @ DQUOTE # rest) =
          scan_from \<lparr>in_str = False, esc = False, depth = d\<rparr> (j + 1 + int (length cs) + 1) rest"
      using 2(2) [OF False b] .
    then show ?thesis
      using False q by (simp add: scan_char_def Let_def add.assoc)
  qed
qed

lemma pieces_skipped_list:
  assumes "\<And>p d j rest. p \<in> set ps \<Longrightarrow> 1 \<le> d \<Longrightarrow>
             scan_from \<lparr>in_str = False, esc = False, depth = d\<rparr> j (spec_render p @ rest) =
             scan_from \<lparr>in_str = False, esc = False, depth = d\<rparr>
               (j + int (length (spec_render p))) rest"
    and "1 \<le> d"
  shows "scan_from \<lparr>in_str = False, esc = False, depth = d\<rparr> j
           (concat (map spec_render ps) @ rest) =
         scan_from \<lparr>in_str = False, esc = False, depth = d\<rparr>
           (j + int (length (concat (map spec_render ps)))) rest"
  using assms
proof (induction ps arbitrary: j)
  case Nil
  then show ?case by simp
next
  case (Cons p ps)
  have 1: "scan_from \<lparr>in_str = False, esc = False, depth = d\<rparr> j
             (spec_render p @ concat (map spec_render ps) @ rest) =
           scan_from \<lparr>in_str = False, esc = False, depth = d\<rparr>
             (j + int (length (spec_render p))) (concat (map spec_render ps) @ rest)"
    using Cons.prems(1) [of p d j] Cons.prems(2) by simp
  have 2: "scan_from \<lparr>in_str = False, esc = False, depth = d\<rparr>
             (j + int (length (spec_render p))) (concat (map spec_render ps) @ rest) =
           scan_from \<lparr>in_str = False, esc = False, depth = d\<rparr>
             (j + int (length (spec_render p)) + int (length (concat (map spec_render ps)))) rest"
    using Cons.IH [of "j + int (length (spec_render p))"] Cons.prems by simp
  show ?case using 1 2 by (simp add: add.assoc)
qed

lemma piece_skipped:
  "spec_wf p \<Longrightarrow> 1 \<le> d \<Longrightarrow>
   scan_from \<lparr>in_str = False, esc = False, depth = d\<rparr> j (spec_render p @ rest) =
   scan_from \<lparr>in_str = False, esc = False, depth = d\<rparr> (j + int (length (spec_render p))) rest"
proof (induction p arbitrary: d j rest)
  case (Lit b)
  then have "spec_string_body b" by simp
  from string_body_skipped [OF this, of d "j + 1" rest]
  show ?case by (simp add: scan_char_def Let_def add.assoc)
next
  case (Ch c)
  then show ?case by (simp add: scan_char_def Let_def)
next
  case (Arr ps)
  have inner: "scan_from \<lparr>in_str = False, esc = False, depth = d + 1\<rparr> (j + 1)
                 (concat (map spec_render ps) @ RBRACKET # rest) =
               scan_from \<lparr>in_str = False, esc = False, depth = d + 1\<rparr>
                 (j + 1 + int (length (concat (map spec_render ps)))) (RBRACKET # rest)"
  proof (rule pieces_skipped_list)
    fix p d' j' rest'
    assume "p \<in> set ps" "1 \<le> (d'::int)"
    with Arr.IH [of p d' j' rest'] Arr.prems(1)
    show "scan_from \<lparr>in_str = False, esc = False, depth = d'\<rparr> j' (spec_render p @ rest') =
          scan_from \<lparr>in_str = False, esc = False, depth = d'\<rparr>
            (j' + int (length (spec_render p))) rest'"
      by (simp add: list_all_iff)
  next
    show "1 \<le> d + 1" using Arr.prems(2) by simp
  qed
  have close: "scan_char \<lparr>in_str = False, esc = False, depth = d + 1\<rparr> RBRACKET =
               Continue \<lparr>in_str = False, esc = False, depth = d\<rparr>"
    using Arr.prems(2) by (simp add: scan_char_def Let_def)
  have opn: "scan_char \<lparr>in_str = False, esc = False, depth = d\<rparr> LBRACKET =
             Continue \<lparr>in_str = False, esc = False, depth = d + 1\<rparr>"
    by (simp add: scan_char_def Let_def)
  show ?case
    by (simp add: opn inner close add.assoc)
qed

lemma array_extent:
  assumes "list_all spec_wf ps"
  shows "scan_from \<lparr>in_str = False, esc = False, depth = 0\<rparr> i (spec_render (Arr ps) @ tail) =
         Some (i + int (length (spec_render (Arr ps))) - 1)"
proof -
  have inner: "scan_from \<lparr>in_str = False, esc = False, depth = 1\<rparr> (i + 1)
                 (concat (map spec_render ps) @ RBRACKET # tail) =
               scan_from \<lparr>in_str = False, esc = False, depth = 1\<rparr>
                 (i + 1 + int (length (concat (map spec_render ps)))) (RBRACKET # tail)"
  proof (rule pieces_skipped_list)
    fix p d' j' rest'
    assume "p \<in> set ps" "1 \<le> (d'::int)"
    with assms piece_skipped [of p d' j' rest']
    show "scan_from \<lparr>in_str = False, esc = False, depth = d'\<rparr> j' (spec_render p @ rest') =
          scan_from \<lparr>in_str = False, esc = False, depth = d'\<rparr>
            (j' + int (length (spec_render p))) rest'"
      by (simp add: list_all_iff)
  qed simp
  have opn: "scan_char \<lparr>in_str = False, esc = False, depth = 0\<rparr> LBRACKET =
             Continue \<lparr>in_str = False, esc = False, depth = 1\<rparr>"
    by (simp add: scan_char_def Let_def)
  have close: "scan_char \<lparr>in_str = False, esc = False, depth = 1\<rparr> RBRACKET = Return"
    by (simp add: scan_char_def Let_def)
  show ?thesis
    by (simp add: opn inner close)
qed

lemma find_from_prefix: "prefix sub s \<Longrightarrow> find_from sub s i = i"
  by (cases s) auto

lemma find_from_skip:
  "\<forall>k<n. \<not> prefix sub (drop k t) \<Longrightarrow> n \<le> length t \<Longrightarrow>
   find_from sub t i = find_from sub (drop n t) (i + int n)"
proof (induction n arbitrary: t i)
  case 0
  then show ?case by simp
next
  case (Suc n)
  then obtain c cs where t: "t = c # cs" by (cases t) auto
  from Suc.prems(1) have "\<not> prefix sub (drop 0 t)" by blast
  then have np: "\<not> prefix sub (c # cs)" by (simp add: t)
  have "\<forall>k<n. \<not> prefix sub (drop k cs)"
  proof (intro allI impI)
    fix k assume "k < n"
    then have "\<not> prefix sub (drop (Suc k) t)" using Suc.prems(1) by auto
    then show "\<not> prefix sub (drop k cs)" by (simp add: t)
  qed
  from Suc.IH [OF this, of "i + 1"] Suc.prems(2)
  have "find_from sub cs (i + 1) = find_from sub (drop n cs) (i + 1 + int n)"
    by (simp add: t)
  then show ?case using np by (simp add: t add.assoc)
qed

lemma find_bracket_skip:
  "LBRACKET \<notin> set xs \<Longrightarrow> find_from [LBRACKET] (xs @ LBRACKET # ys) i = i + int (length xs)"
  by (induction xs arbitrary: i) auto

lemma extract_embedded:
  assumes key: "LBRACKET \<notin> set key" and wf: "list_all spec_wf ps"
    and first: "spec_first_at (DQUOTE # key @ [DQUOTE, COLON, LBRACKET])
                  (spec_embed pre key ps tail) (length pre)"
  shows "extract_json_array (Some (spec_embed pre key ps tail)) key =
         Inr (Some (spec_render (Arr ps)))"
proof -
  let ?needle = "DQUOTE # key @ [DQUOTE, COLON, LBRACKET]"
  let ?t = "spec_embed pre key ps tail"
  let ?arr = "spec_render (Arr ps)"
  let ?i = "int (length pre) + int (length key) + 3"
  have t: "?t = pre @ (DQUOTE # key @ [DQUOTE, COLON]) @ ?arr @ tail"
    by (simp add: spec_embed_def)
  have dr: "drop (length pre) ?t = (DQUOTE # key @ [DQUOTE, COLON]) @ ?arr @ tail"
    unfolding t by simp
  have nb: "\<forall>k<length pre. \<not> prefix ?needle (drop k ?t)"
    using first by (simp add: spec_first_at_def list_all_iff)
  have pf: "prefix ?needle (drop (length pre) ?t)"
    using first by (simp add: spec_first_at_def)
  have "py_find ?needle ?t = find_from ?needle (drop (length pre) ?t) (0 + int (length pre))"
    unfolding py_find_def by (rule find_from_skip [OF nb]) (simp add: t)
  then have idx: "py_find ?needle ?t = int (length pre)"
    using find_from_prefix [OF pf] by simp
  have lb: "LBRACKET \<notin> set (DQUOTE # key @ [DQUOTE, COLON])" using key by simp
  have "find_from [LBRACKET] (drop (length pre) ?t) (int (length pre)) =
        int (length pre) + int (length (DQUOTE # key @ [DQUOTE, COLON]))"
    unfolding dr using find_bracket_skip [OF lb, of "concat (map spec_render ps) @ RBRACKET # tail"]
    by simp
  then have i: "py_find_start [LBRACKET] ?t (int (length pre)) = ?i"
    by (simp add: py_find_start_def t)
  have ni: "nat ?i = length (pre @ (DQUOTE # key @ [DQUOTE, COLON]))" by simp
  have t': "?t = (pre @ (DQUOTE # key @ [DQUOTE, COLON])) @ (?arr @ tail)"
    by (simp add: spec_embed_def)
  have gen: "drop (length xs) (xs @ ys) = ys" for xs ys :: ustring by simp
  have di: "drop (nat ?i) ?t = ?arr @ tail"
    unfolding ni t' by (rule gen)
  have sc: "scan_from \<lparr>in_str = False, esc = False, depth = 0\<rparr> ?i (drop (nat ?i) ?t) =
            Some (?i + int (length ?arr) - 1)"
    unfolding di by (rule array_extent [OF wf])
  have "py_slice ?t ?i (?i + int (length ?arr) - 1 + 1) = take (length ?arr) (drop (nat ?i) ?t)"
    by (simp add: py_slice_def drop_take nat_add_distrib)
  then have sl: "py_slice ?t ?i (?i + int (length ?arr) - 1 + 1) = ?arr"
    unfolding di by simp
  have ne: "?i \<noteq> - 1" by simp
  have ne0: "int (length pre) \<noteq> - 1" by simp
  show ?thesis
    unfolding extract_json_array_def option.case Let_def
    using idx i sc sl ne ne0 by (simp del: spec_render.simps)
qed

lemma json_example:
  \<open>extract_json_array (Some (ustr ''"products":[{"a":1},{"b":"]"}]'')) (ustr ''products'') =
     Inr (Some (ustr ''[{"a":1},{"b":"]"}]''))\<close>
  by code_simp

lemma json_escaped:
  \<open>extract_json_array (Some (ustr ''"k":["a'' @ [BACKSLASH] @ ustr ''"]b"] tail'')) (ustr ''k'') =
     Inr (Some (ustr ''["a'' @ [BACKSLASH] @ ustr ''"]b"]''))\<close>
  by code_simp

lemma string_literal_skipped:
  assumes "spec_string_body b"
  shows "scan_from \<lparr>in_str = False, esc = False, depth = d\<rparr> j (DQUOTE # b @ DQUOTE # rest) =
         scan_from \<lparr>in_str = False, esc = False, depth = d\<rparr> (j + int (length b) + 2) rest"
proof -
  have "j + 1 + int (length b) + 1 = j + int (length b) + 2" by simp
  with string_body_skipped [OF assms, of d "j + 1" rest]
  have "scan_from \<lparr>in_str = True, esc = False, depth = d\<rparr> (j + 1) (b @ DQUOTE # rest) =
        scan_from \<lparr>in_str = False, esc = False, depth = d\<rparr> (j + int (length b) + 2) rest"
    by simp
  then show ?thesis by (simp add: scan_char_def Let_def)
qed

text \<open>
  C5: the extractor is aware of strings. On \<open>"products":[{"a":1},{"b":"]"}]\<close> with
  the key \<open>products\<close> it returns \<open>[{"a":1},{"b":"]"}]\<close>, and the \<open>]\<close> after the escaped
  quote of \<open>["a\"]b"]\<close> does not end the scan. In general the scan passes over a whole
  quoted string, whatever it holds (a \<open>]\<close>, a \<open>[\<close>, escaped quotes), with the depth
  unchanged and without returning; so for every key without \<open>[\<close> and every text in
  which \<open>"key":[\<close> first occurs in front of an array of quoted strings, nested arrays and
  other characters, the extractor returns exactly that array.
\<close>

theorem json_array_string_aware:
  \<open>extract_json_array (Some (ustr ''"products":[{"a":1},{"b":"]"}]'')) (ustr ''products'') =
     Inr (Some (ustr ''[{"a":1},{"b":"]"}]'')) \<and>
   extract_json_array (Some (ustr ''"k":["a'' @ [BACKSLASH] @ ustr ''"]b"] tail'')) (ustr ''k'') =
     Inr (Some (ustr ''["a'' @ [BACKSLASH] @ ustr ''"]b"]'')) \<and>
   (spec_string_body b \<longrightarrow>
      scan_from \<lparr>in_str = False, esc = False, depth = d\<rparr> j (DQUOTE # b @ DQUOTE # rest) =
      scan_from \<lparr>in_str = False, esc = False, depth = d\<rparr> (j + int (length b) + 2) rest) \<and>
   (LBRACKET \<notin> set key \<and> list_all spec_wf ps \<and>
    spec_first_at (DQUOTE # key @ [DQUOTE, COLON, LBRACKET]) (spec_embed pre key ps tail)
      (length pre) \<longrightarrow>
      extract_json_array (Some (spec_embed pre key ps tail)) key =
        Inr (Some (spec_render (Arr ps))))\<close>
  using json_example json_escaped string_literal_skipped [of b d j rest]
    extract_embedded [of key ps pre tail]
  by blast

theorem json_array_string_aware_witness:
  \<open>spec_string_body (ustr ''a'' @ [BACKSLASH, DQUOTE] @ ustr '']b'') \<and>
   LBRACKET \<notin> set (ustr ''k'') \<and>
   list_all spec_wf [Lit (ustr ''a'' @ [BACKSLASH, DQUOTE] @ ustr '']b''), Ch COMMA, Lit (ustr '']'')] \<and>
   extract_json_array
     (Some (ustr ''x="k":["a'' @ [BACKSLASH] @ ustr ''"]b","]"];''))
     (ustr ''k'') =
   Inr (Some (ustr ''["a'' @ [BACKSLASH] @ ustr ''"]b","]"]''))\<close>
proof -
  let ?b = "ustr ''a'' @ [BACKSLASH, DQUOTE] @ ustr '']b''"
  let ?ps = "[Lit ?b, Ch COMMA, Lit (ustr '']'')]"
  have b: "spec_string_body ?b" by (simp add: ustr_def)
  have k: "LBRACKET \<notin> set (ustr ''k'')" by (simp add: ustr_def)
  have w: "list_all spec_wf ?ps" by (simp add: ustr_def)
  have f: "spec_first_at (DQUOTE # ustr ''k'' @ [DQUOTE, COLON, LBRACKET])
             (spec_embed (ustr ''x='') (ustr ''k'') ?ps (ustr '';'')) (length (ustr ''x=''))"
    by (simp add: spec_first_at_def spec_embed_def ustr_def upt_rec [of 0] upt_rec [of 1])
  have e: \<open>spec_embed (ustr ''x='') (ustr ''k'') ?ps (ustr '';'') =
           ustr ''x="k":["a'' @ [BACKSLASH] @ ustr ''"]b","]"];''\<close>
    by (simp add: spec_embed_def ustr_def)
  have r: \<open>spec_render (Arr ?ps) = ustr ''["a'' @ [BACKSLASH] @ ustr ''"]b","]"]''\<close>
    by (simp add: ustr_def)
  from json_array_string_aware [of ?b _ _ _ "ustr ''k''" ?ps "ustr ''x=''" "ustr '';''"] k w f
  have "extract_json_array (Some (spec_embed (ustr ''x='') (ustr ''k'') ?ps (ustr '';''))) (ustr ''k'') =
        Inr (Some (spec_render (Arr ?ps)))"
    by blast
  then show ?thesis unfolding e r using b k w by blast
qed

section \<open>No error reaches the caller\<close>




section \<open>Claims about the price filter and the comparison rows\<close>

lemma in_range_spec: "in_range lo hi it = spec_within_bounds lo hi it"
  by (auto simp: in_range_def spec_within_bounds_def split: option.splits)

text \<open>
  C7: with at least one bound supplied, the filter keeps exactly the records whose price
  is present and lies within the bounds, both bounds included and an absent bound being
  no bound; the order of the records is kept.
\<close>

theorem price_filter_exact:
  "minp \<noteq> None \<or> maxp \<noteq> None \<Longrightarrow>
   apply_price_filter minp maxp items = filter (spec_within_bounds minp maxp) items"
  by (auto simp: apply_price_filter_def in_range_spec [abs_def])

theorem price_filter_exact_witness:
  "apply_price_filter (Some 500) (Some 3000)
     (map listing_with [Some 500, Some 3000, Some 499, Some 3001, None, Some 1000]) =
   map listing_with [Some 500, Some 3000, Some 1000]"
  using price_filter_exact [of "Some 500" "Some 3000"
      "map listing_with [Some 500, Some 3000, Some 499, Some 3001, None, Some 1000]"]
  by (simp add: spec_within_bounds_def listing_with_def)

text \<open>
  C8: for a row count \<open>n\<close> (not negative) the table has exactly \<open>n\<close> rows, and row \<open>i\<close>
  holds the \<open>i\<close>-th record of each list, or \<open>None\<close> on a side whose list is too short.
\<close>

theorem comparison_rows_aligned:
  assumes "0 \<le> n"
  shows "length (comparison_rows l r n) = nat n \<and>
         (\<forall>i < nat n. comparison_rows l r n ! i =
            (if i < length l then Some (l ! i) else None,
             if i < length r then Some (r ! i) else None))"
proof -
  let ?m = "nat (max (max (int (length l)) (int (length r))) n)"
  have le: "nat n \<le> ?m" by simp
  have eq: "comparison_rows l r n = take (nat n) (map (row_at l r) [0..<?m])"
    using assms by (simp add: comparison_rows_def py_take_def Let_def)
  have "length (comparison_rows l r n) = nat n"
    unfolding eq using le by simp
  moreover have "comparison_rows l r n ! i = row_at l r i" if "i < nat n" for i
    unfolding eq using that le by simp
  ultimately show ?thesis by (simp add: row_at_def)
qed

theorem comparison_rows_aligned_witness:
  "(0::int) \<le> 5 \<and>
   length (comparison_rows [10, 20, 30 :: nat] [70 :: nat] 5) = 5 \<and>
   comparison_rows [10, 20, 30 :: nat] [70 :: nat] 5 ! 1 = (Some 20, None) \<and>
   comparison_rows [10, 20, 30 :: nat] [70 :: nat] 5 ! 3 = (None, None) \<and>
   comparison_rows [10, 20, 30 :: nat] [70 :: nat] 5 ! 4 = (None, None)"
proof -
  have h: "(0::int) \<le> 5" by simp
  from comparison_rows_aligned [OF h, of "[10, 20, 30 :: nat]" "[70 :: nat]"]
  show ?thesis by simp
qed

end
